theory Spec2Isabelle
  imports Complex_Main "HOL-Library.Multiset"
begin

section \<open>The data frame of retrofit packages\<close>

text \<open>
  The dashboard \<^verbatim>\<open>simulation_dashboard.py\<close> keeps one pandas data frame \<^verbatim>\<open>df\<close>, one
  row per retrofit package. The frame is modelled as the list of its rows in file order.
  The three metric columns are Python floats; they are modelled as exact reals, so
  rounding and NaN cells of the metric columns are outside the model.
\<close>

record package_row =
  package :: string
  wall_materials :: "string list"
  roof_materials :: "string list"
  wall_materials_str :: string
  roof_materials_str :: string
  heating_demand_kwh_per_m2 :: real
  gwp_kgco2e :: real
  cost_sek :: real

type_synonym data_frame = "package_row list"

section \<open>Library operations of pandas that the script calls\<close>

text \<open>
  \<^verbatim>\<open>df.sort_values(col)\<close> returns the rows in ascending order of the column. pandas
  computes the positions of the rows in that order with numpy's \<^verbatim>\<open>argsort\<close> of the column
  and takes the rows at these positions. The script never passes \<^verbatim>\<open>kind\<close>, so the
  algorithm is the default quicksort, which promises no order among equal values. The
  algorithm is therefore a parameter \<open>argsort\<close> of the model, and all that is assumed of
  it is the contract \<open>valid_argsort\<close>: it returns every position of the column exactly
  once, in ascending order of the values found there.
\<close>

definition valid_argsort :: "(real list \<Rightarrow> nat list) \<Rightarrow> bool" where
  "valid_argsort argsort =
     (\<forall>vs. mset (argsort vs) = mset [0..<length vs] \<and>
           sorted (map (\<lambda>i. vs ! i) (argsort vs)))"

definition sort_values :: "(real list \<Rightarrow> nat list) \<Rightarrow> ('a \<Rightarrow> real) \<Rightarrow> 'a list \<Rightarrow> 'a list" where
  "sort_values argsort col df = map (\<lambda>i. df ! i) (argsort (map col df))"

text \<open>
  Two algorithms that meet the contract. The first keeps equal values in their original
  order, as \<^verbatim>\<open>kind='stable'\<close> does; the second puts equal values in the reverse of their
  original order.
\<close>

definition stable_argsort :: "real list \<Rightarrow> nat list" where
  "stable_argsort vs = sort_key (\<lambda>i. vs ! i) [0..<length vs]"


text \<open>\<^verbatim>\<open>df.head(n)\<close>: the first \<open>n\<close> rows, all of them when there are fewer.\<close>

definition head :: "nat \<Rightarrow> 'a list \<Rightarrow> 'a list" where
  "head n df = take n df"

text \<open>
  \<^verbatim>\<open>Series.rank()\<close> with its defaults (\<^verbatim>\<open>method='average'\<close>, ascending): the values are
  put in ascending order and numbered from 1; every value receives the mean of the
  numbers held by the values equal to it.
\<close>

definition tied_positions :: "real list \<Rightarrow> real \<Rightarrow> nat list" where
  "tied_positions vs v = map Suc (filter (\<lambda>i. sort vs ! i = v) [0..<length vs])"

definition average_rank :: "real list \<Rightarrow> real \<Rightarrow> real" where
  "average_rank vs v =
     real (sum_list (tied_positions vs v)) / real (length (tied_positions vs v))"

definition rank :: "real list \<Rightarrow> real list" where
  "rank vs = map (average_rank vs) vs"

text \<open>Arithmetic on whole columns: \<^verbatim>\<open>series * k\<close> and \<^verbatim>\<open>series + series\<close>.\<close>

definition series_times :: "real list \<Rightarrow> real \<Rightarrow> real list" where
  "series_times s k = map (\<lambda>x. x * k) s"

definition series_plus :: "real list \<Rightarrow> real list \<Rightarrow> real list" where
  "series_plus s t = map (\<lambda>(x, y). x + y) (zip s t)"

section \<open>The multi-criteria selector\<close>

text \<open>
  Lines 280 to 302 of the script. The three raw weights come from the sliders. When they
  add up to zero the script shows a warning and computes nothing else; otherwise it
  divides each weight by the total, stores the weighted sum of the three rank columns as
  the column \<^verbatim>\<open>score\<close>, and shows the first six rows in ascending order of that column.
  A row together with its score is modelled as a pair.
\<close>

definition score_column :: "real \<Rightarrow> real \<Rightarrow> real \<Rightarrow> data_frame \<Rightarrow> real list" where
  "score_column gw cw hw df =
     series_plus
       (series_plus (series_times (rank (map gwp_kgco2e df)) gw)
                    (series_times (rank (map cost_sek df)) cw))
       (series_times (rank (map heating_demand_kwh_per_m2 df)) hw)"

definition with_score :: "real \<Rightarrow> real \<Rightarrow> real \<Rightarrow> data_frame \<Rightarrow> (package_row \<times> real) list" where
  "with_score gw cw hw df = zip df (score_column gw cw hw df)"

datatype selector_output =
    Warning string
  | Top_custom real real real "(package_row \<times> real) list"

definition multi_criteria_selector ::
    "(real list \<Rightarrow> nat list) \<Rightarrow> data_frame \<Rightarrow> real \<Rightarrow> real \<Rightarrow> real \<Rightarrow> selector_output" where
  "multi_criteria_selector argsort df gw_raw cw_raw hw_raw =
     (let total_weight = gw_raw + cw_raw + hw_raw in
      if total_weight = 0
      then Warning ''Please assign some weight to at least one criterion.''
      else
        let gw = gw_raw / total_weight;
            cw = cw_raw / total_weight;
            hw = hw_raw / total_weight
        in Top_custom gw cw hw (head 6 (sort_values argsort snd (with_score gw cw hw df))))"

text \<open>
  The fractional rank in the words of the specification: ranks count from 1 in ascending
  order and tied values share the mean of their positions. With \<open>a\<close> values below \<open>v\<close> and
  \<open>b\<close> values equal to \<open>v\<close>, the tied positions are \<open>a + 1, \<dots>, a + b\<close> and their mean is
  \<open>a + (b + 1) / 2\<close>.
\<close>

definition fractional_rank :: "real list \<Rightarrow> real \<Rightarrow> real" where
  "fractional_rank vs v =
     real (length (filter (\<lambda>x. x < v) vs)) + (real (length (filter (\<lambda>x. x = v) vs)) + 1) / 2"

text \<open>
  The three records of the specification's end-to-end example, A: (gwp 10, cost 100,
  heating 50), B: (gwp 20, cost 50, heating 40) and C: (gwp 15, cost 75, heating 45), in
  that file order. Their material columns play no part in ranking and are left empty.
\<close>

definition example_row :: "string \<Rightarrow> real \<Rightarrow> real \<Rightarrow> real \<Rightarrow> package_row" where
  "example_row name gwp cost heat =
     \<lparr>package = name, wall_materials = [], roof_materials = [],
      wall_materials_str = [], roof_materials_str = [],
      heating_demand_kwh_per_m2 = heat, gwp_kgco2e = gwp, cost_sek = cost\<rparr>"

definition example_df :: data_frame where
  "example_df = [example_row ''A'' 10 100 50, example_row ''B'' 20 50 40, example_row ''C'' 15 75 45]"


section \<open>Layer columns and their ordinal encoding\<close>

text \<open>
  Lines 226 to 246 of the script. For each of the layer names cladding, membrane and
  insulation, numbered 0, 1, 2 by \<^verbatim>\<open>enumerate\<close>, and for wall and roof, a new column holds
  \<^verbatim>\<open>x[i] if len(x) > i else "None"\<close> of the material sequence \<^verbatim>\<open>x\<close> of each row. A column
  of the frame is modelled as the list of its cells in row order, and the six new
  columns are addressed by the pair of \<^verbatim>\<open>typ\<close> and layer instead of by the name
  \<^verbatim>\<open>f"{typ}_{layer}"\<close>.
\<close>

datatype material_typ = roof | wall

datatype layer = cladding | membrane | insulation

fun layer_index :: "layer \<Rightarrow> nat" where
  "layer_index cladding = 0"
| "layer_index membrane = 1"
| "layer_index insulation = 2"

fun materials :: "material_typ \<Rightarrow> package_row \<Rightarrow> string list" where
  "materials roof r = roof_materials r"
| "materials wall r = wall_materials r"

definition layer_of :: "nat \<Rightarrow> string list \<Rightarrow> string" where
  "layer_of i x = (if length x > i then x ! i else ''None'')"

definition layer_column :: "material_typ \<Rightarrow> layer \<Rightarrow> data_frame \<Rightarrow> string list" where
  "layer_column t l df = map (\<lambda>r. layer_of (layer_index l) (materials t r)) df"

text \<open>
  \<^verbatim>\<open>Series.unique()\<close> of pandas: the distinct values in order of appearance. It walks the
  column and appends every value it has not seen yet. (The library function
  \<^const>\<open>remdups\<close> keeps the last occurrence of each value and is a different order.)
\<close>

definition unique :: "'a list \<Rightarrow> 'a list" where
  "unique xs = foldl (\<lambda>seen x. if x \<in> set seen then seen else seen @ [x]) [] xs"

text \<open>
  \<^verbatim>\<open>tick_dict[col] = pd.Series(range(len(unique)), index=unique)\<close> is kept as the list of
  pairs of index label and value. \<^verbatim>\<open>df[col].map(tick_dict[col])\<close> looks every cell up by
  label; a label that is not in the index would give NaN, which is \<^const>\<open>None\<close> here.
\<close>

definition tick_dict :: "material_typ \<Rightarrow> layer \<Rightarrow> data_frame \<Rightarrow> (string \<times> nat) list" where
  "tick_dict t l df =
     (let uniq = unique (layer_column t l df) in zip uniq [0..<length uniq])"

definition dummy_column :: "material_typ \<Rightarrow> layer \<Rightarrow> data_frame \<Rightarrow> nat option list" where
  "dummy_column t l df = map (map_of (tick_dict t l df)) (layer_column t l df)"

text \<open>
  The six categorical dimensions of the parallel-coordinates plot, in the order of
  \<^verbatim>\<open>material_cols\<close>. Of each dimension the tick values, the tick texts and the plotted
  values are modelled; its axis range and its label are presentation only and left out,
  and so are the three numeric dimensions that carry no ticks.
\<close>

record dimension =
  tickvals :: "nat list"
  ticktext :: "string list"
  dummy_values :: "nat option list"

definition material_cols :: "(material_typ \<times> layer) list" where
  "material_cols = concat (map (\<lambda>t. map (\<lambda>l. (t, l)) [cladding, membrane, insulation]) [roof, wall])"

definition dimension_of :: "material_typ \<Rightarrow> layer \<Rightarrow> data_frame \<Rightarrow> dimension" where
  "dimension_of t l df =
     \<lparr>tickvals = map snd (tick_dict t l df),
      ticktext = map fst (tick_dict t l df),
      dummy_values = dummy_column t l df\<rparr>"

definition dimensions :: "data_frame \<Rightarrow> dimension list" where
  "dimensions df = map (\<lambda>(t, l). dimension_of t l df) material_cols"

text \<open>
  A small frame with short material sequences, for concrete evaluation: the walls of P1
  have one layer, the roof of P3 has none.
\<close>

definition materials_row :: "string \<Rightarrow> string list \<Rightarrow> string list \<Rightarrow> package_row" where
  "materials_row name w r =
     \<lparr>package = name, wall_materials = w, roof_materials = r,
      wall_materials_str = [], roof_materials_str = [],
      heating_demand_kwh_per_m2 = 0, gwp_kgco2e = 0, cost_sek = 0\<rparr>"

definition materials_df :: data_frame where
  "materials_df =
     [materials_row ''P1'' [''brick''] [''tile'', ''felt'', ''wool''],
      materials_row ''P2'' [''wood'', ''foil'', ''wool''] [''tile'', ''felt'', ''foam''],
      materials_row ''P3'' [''brick'', ''foil'', ''foam''] []]"

section \<open>Best packages, medians and cost range\<close>

text \<open>
  A Python exception is a value of the type below. \<^const>\<open>Inl\<close> of a sum is a raised
  exception, \<^const>\<open>Inr\<close> a normal result. \<open>Malformed_literal\<close> stands for the
  \<^verbatim>\<open>SyntaxError\<close> or \<^verbatim>\<open>ValueError\<close> that \<^verbatim>\<open>ast.literal_eval\<close> raises on text that is not
  a literal. \<open>Outside_fragment\<close> is not a Python exception: it marks text on which the
  model of \<^verbatim>\<open>ast.literal_eval\<close> below makes no statement.
\<close>

datatype py_error = IndexError | TypeError | Malformed_literal | Outside_fragment

text \<open>
  \<^verbatim>\<open>df.iloc[i]\<close> for a position \<open>i \<ge> 0\<close>: the row at that position, and \<^verbatim>\<open>IndexError\<close>
  when the frame has no such row. Lines 124 to 126 take position 0 of the frame sorted
  by a metric.
\<close>

definition iloc :: "'a list \<Rightarrow> nat \<Rightarrow> py_error + 'a" where
  "iloc df i = (if i < length df then Inr (df ! i) else Inl IndexError)"

definition best_pkg ::
    "(real list \<Rightarrow> nat list) \<Rightarrow> (package_row \<Rightarrow> real) \<Rightarrow> data_frame \<Rightarrow> py_error + package_row" where
  "best_pkg argsort col df = iloc (sort_values argsort col df) 0"

text \<open>
  \<^verbatim>\<open>Series.median()\<close>, \<^verbatim>\<open>Series.min()\<close> and \<^verbatim>\<open>Series.max()\<close> return a float, which pandas
  documents to be NaN for a column without values. The median of \<open>n\<close> values is the middle
  one in ascending order, or the mean of the two middle ones when \<open>n\<close> is even.
\<close>

datatype stat = NaN | Number real

definition median :: "real list \<Rightarrow> stat" where
  "median vs =
     (if vs = [] then NaN
      else let s = sort vs; n = length s
           in if odd n then Number (s ! (n div 2))
              else Number ((s ! (n div 2 - 1) + s ! (n div 2)) / 2))"

fun series_min :: "real list \<Rightarrow> stat" where
  "series_min [] = NaN"
| "series_min (v # vs) = Number (fold min vs v)"

fun series_max :: "real list \<Rightarrow> stat" where
  "series_max [] = NaN"
| "series_max (v # vs) = Number (fold max vs v)"

text \<open>
  The summary statistics of the script are module-level statements that run once, in
  this order: the three best packages (lines 124 to 126), the three medians (lines 129
  to 131) and the cost range (line 167). They are modelled as the one block they form:
  a statement that raises ends the script, so that a later statement runs only when
  every earlier one has returned. The statements between them, which display these
  values and count the wall insulations (lines 159 to 161), are not modelled.
\<close>

record summary =
  best_heat_pkg :: package_row
  best_gwp_pkg :: package_row
  best_cost_pkg :: package_row
  median_heat :: stat
  median_gwp :: stat
  median_cost :: stat
  cost_min :: stat
  cost_max :: stat

definition summary_statistics ::
    "(real list \<Rightarrow> nat list) \<Rightarrow> data_frame \<Rightarrow> py_error + summary" where
  "summary_statistics argsort df =
     (case best_pkg argsort heating_demand_kwh_per_m2 df of Inl e \<Rightarrow> Inl e | Inr bh \<Rightarrow>
      case best_pkg argsort gwp_kgco2e df of Inl e \<Rightarrow> Inl e | Inr bg \<Rightarrow>
      case best_pkg argsort cost_sek df of Inl e \<Rightarrow> Inl e | Inr bc \<Rightarrow>
        Inr \<lparr>best_heat_pkg = bh, best_gwp_pkg = bg, best_cost_pkg = bc,
             median_heat = median (map heating_demand_kwh_per_m2 df),
             median_gwp = median (map gwp_kgco2e df),
             median_cost = median (map cost_sek df),
             cost_min = series_min (map cost_sek df),
             cost_max = series_max (map cost_sek df)\<rparr>)"

section \<open>Decoding the list-valued cells\<close>

text \<open>
  \<^verbatim>\<open>load_data\<close> decodes every cell of the columns \<^verbatim>\<open>wall_materials\<close> and \<^verbatim>\<open>roof_materials\<close>
  with \<^verbatim>\<open>ast.literal_eval\<close>. That function belongs to Python's standard library; it is
  modelled here on a fragment of Python's literal syntax: string literals in single or
  double quotes with the escapes \<^verbatim>\<open>\\ \' \" \n \r \t \a \b \f \v \xhh\<close>, lists in square
  brackets, nested to any depth, with an optional trailing comma, and blanks (space,
  tab) between tokens. Text that leaves the fragment where Python may still accept it
  (numbers, tuples, dictionaries, names, adjacent string literals, other escapes)
  yields \<open>Outside_fragment\<close>. A character is a code point below 256.

  The text is read character by character. The state holds the lists that are open,
  innermost first, each with the items it has so far.
\<close>

datatype pyval = is_PStr: PStr (the_str: string) | PList "pyval list"

datatype scan_state =
    Want "pyval list list"
  | After "pyval list" "pyval list list"
  | Done pyval
  | In_str "pyval list list" char string
  | In_esc "pyval list list" char string
  | In_hex1 "pyval list list" char string
  | In_hex2 "pyval list list" char string nat

text \<open>A finished value goes to the innermost open list, or is the result at top level.\<close>

fun complete :: "pyval list list \<Rightarrow> pyval \<Rightarrow> scan_state" where
  "complete [] v = Done v"
| "complete (items # outer) v = After (items @ [v]) outer"

definition hex_value :: "char \<Rightarrow> nat option" where
  "hex_value c =
     (let n = of_char c :: nat in
      if 48 \<le> n \<and> n \<le> 57 then Some (n - 48)
      else if 97 \<le> n \<and> n \<le> 102 then Some (n - 87)
      else if 65 \<le> n \<and> n \<le> 70 then Some (n - 55)
      else None)"

definition is_blank :: "char \<Rightarrow> bool" where
  "is_blank c = (c = CHR '' '' \<or> c = CHR 0x09)"

definition is_quote :: "char \<Rightarrow> bool" where
  "is_quote c = (c = CHR 0x27 \<or> c = CHR 0x22)"

fun close_list :: "pyval list list \<Rightarrow> py_error + scan_state" where
  "close_list [] = Inl Malformed_literal"
| "close_list (items # outer) = Inr (complete outer (PList items))"

fun escape :: "char \<Rightarrow> char option" where
  "escape c =
     (if c = CHR 0x5C \<or> is_quote c then Some c
      else if c = CHR ''n'' then Some (CHR 0x0A)
      else if c = CHR ''r'' then Some (CHR 0x0D)
      else if c = CHR ''t'' then Some (CHR 0x09)
      else if c = CHR ''a'' then Some (CHR 0x07)
      else if c = CHR ''b'' then Some (CHR 0x08)
      else if c = CHR ''f'' then Some (CHR 0x0C)
      else if c = CHR ''v'' then Some (CHR 0x0B)
      else None)"

fun step :: "scan_state \<Rightarrow> char \<Rightarrow> py_error + scan_state" where
  "step (Want ctx) c =
     (if is_blank c then Inr (Want ctx)
      else if c = CHR ''['' then Inr (Want ([] # ctx))
      else if c = CHR '']'' then close_list ctx
      else if is_quote c then Inr (In_str ctx c [])
      else if c = CHR '','' then Inl Malformed_literal
      else Inl Outside_fragment)"
| "step (After items outer) c =
     (if is_blank c then Inr (After items outer)
      else if c = CHR '','' then Inr (Want (items # outer))
      else if c = CHR '']'' then Inr (complete outer (PList items))
      else Inl Outside_fragment)"
| "step (Done v) c =
     (if is_blank c then Inr (Done v) else Inl Outside_fragment)"
| "step (In_str ctx q acc) c =
     (if c = q then Inr (complete ctx (PStr acc))
      else if c = CHR 0x5C then Inr (In_esc ctx q acc)
      else if c = CHR 0x0A \<or> c = CHR 0x0D \<or> c = CHR 0x00 then Inl Malformed_literal
      else Inr (In_str ctx q (acc @ [c])))"
| "step (In_esc ctx q acc) c =
     (if c = CHR ''x'' then Inr (In_hex1 ctx q acc)
      else case escape c of
             Some e \<Rightarrow> Inr (In_str ctx q (acc @ [e]))
           | None \<Rightarrow> Inl Outside_fragment)"
| "step (In_hex1 ctx q acc) c =
     (case hex_value c of
        None \<Rightarrow> Inl Malformed_literal
      | Some d \<Rightarrow> Inr (In_hex2 ctx q acc d))"
| "step (In_hex2 ctx q acc d) c =
     (case hex_value c of
        None \<Rightarrow> Inl Malformed_literal
      | Some e \<Rightarrow> Inr (In_str ctx q (acc @ [char_of (16 * d + e)])))"

fun scan :: "scan_state \<Rightarrow> string \<Rightarrow> py_error + pyval" where
  "scan (Done v) [] = Inr v"
| "scan st [] = Inl Malformed_literal"
| "scan st (c # cs) = (case step st c of Inl e \<Rightarrow> Inl e | Inr st' \<Rightarrow> scan st' cs)"

definition literal_eval :: "string \<Rightarrow> py_error + pyval" where
  "literal_eval s = scan (Want []) s"

text \<open>
  The textual form of a list of strings is Python's \<^verbatim>\<open>repr\<close>, which is also what
  \<^verbatim>\<open>str\<close> of a list gives: the items' \<^verbatim>\<open>repr\<close> between brackets, separated by a comma
  and a space. \<^verbatim>\<open>repr\<close> of a string quotes it with \<^verbatim>\<open>'\<close>, or with \<^verbatim>\<open>"\<close> when the string has
  a \<^verbatim>\<open>'\<close> and no \<^verbatim>\<open>"\<close>; it escapes the quote and the backslash, writes tab, line feed
  and carriage return as \<^verbatim>\<open>\t \n \r\<close> and every other unprintable character as \<^verbatim>\<open>\xhh\<close>
  with lower-case digits. Below 256 the printable characters are 32 to 126 and 161 to
  255 without 173.
\<close>

definition printable :: "char \<Rightarrow> bool" where
  "printable c = (let n = of_char c :: nat in (32 \<le> n \<and> n < 127) \<or> (161 \<le> n \<and> n \<noteq> 173))"

definition hex_digit :: "nat \<Rightarrow> char" where
  "hex_digit d = (if d < 10 then char_of (48 + d) else char_of (87 + d))"

definition repr_char :: "char \<Rightarrow> char \<Rightarrow> string" where
  "repr_char q c =
     (if c = q \<or> c = CHR 0x5C then [CHR 0x5C, c]
      else if c = CHR 0x09 then [CHR 0x5C, CHR ''t'']
      else if c = CHR 0x0A then [CHR 0x5C, CHR ''n'']
      else if c = CHR 0x0D then [CHR 0x5C, CHR ''r'']
      else if printable c then [c]
      else [CHR 0x5C, CHR ''x'', hex_digit (of_char c div 16), hex_digit (of_char c mod 16)])"

definition repr_quote :: "string \<Rightarrow> char" where
  "repr_quote s = (if CHR 0x27 \<in> set s \<and> CHR 0x22 \<notin> set s then CHR 0x22 else CHR 0x27)"

definition repr_str :: "string \<Rightarrow> string" where
  "repr_str s = (let q = repr_quote s in q # concat (map (repr_char q) s) @ [q])"

text \<open>\<^verbatim>\<open>sep.join(xs)\<close> for a sequence of strings.\<close>

fun join :: "string \<Rightarrow> string list \<Rightarrow> string" where
  "join sep [] = []"
| "join sep [x] = x"
| "join sep (x # y # ys) = x @ sep @ join sep (y # ys)"

definition repr_list :: "string list \<Rightarrow> string" where
  "repr_list xs = ''['' @ join '', '' (map repr_str xs) @ '']''"

section \<open>Loading the data\<close>

text \<open>
  Lines 112 to 119. \<^verbatim>\<open>pd.read_csv\<close> is not modelled: the input of the model is the table
  it returns, one \<open>csv_row\<close> per line of the file with the two list-valued cells still as
  text. \<^verbatim>\<open>Series.apply(f)\<close> calls \<open>f\<close> on the cells in row order and the first exception
  ends the load. \<^verbatim>\<open>", ".join(x)\<close> works on any sequence of strings: a list whose items
  are all strings, or a string, which it takes as the sequence of its characters; an
  item that is not a string raises \<^verbatim>\<open>TypeError\<close>. After loading, the script only takes
  the length of a decoded cell, reads it by position and joins it, so the loaded row
  keeps the sequence of strings that the decoded value stands for.
\<close>

record csv_row =
  csv_package :: string
  csv_wall_materials :: string
  csv_roof_materials :: string
  csv_heating_demand_kwh_per_m2 :: real
  csv_gwp_kgco2e :: real
  csv_cost_sek :: real

fun apply_series :: "('a \<Rightarrow> py_error + 'b) \<Rightarrow> 'a list \<Rightarrow> py_error + 'b list" where
  "apply_series f [] = Inr []"
| "apply_series f (x # xs) =
     (case f x of
        Inl e \<Rightarrow> Inl e
      | Inr y \<Rightarrow> (case apply_series f xs of Inl e \<Rightarrow> Inl e | Inr ys \<Rightarrow> Inr (y # ys)))"

fun str_items :: "pyval \<Rightarrow> py_error + string list" where
  "str_items (PStr s) = Inr (map (\<lambda>c. [c]) s)"
| "str_items (PList vs) =
     (if list_all is_PStr vs then Inr (map the_str vs) else Inl TypeError)"

definition comma_join :: "pyval \<Rightarrow> py_error + string" where
  "comma_join x = (case str_items x of Inl e \<Rightarrow> Inl e | Inr ss \<Rightarrow> Inr (join '', '' ss))"

definition items_of :: "pyval \<Rightarrow> string list" where
  "items_of x = (case str_items x of Inl e \<Rightarrow> [] | Inr ss \<Rightarrow> ss)"

definition loaded_row :: "csv_row \<Rightarrow> pyval \<Rightarrow> pyval \<Rightarrow> string \<Rightarrow> string \<Rightarrow> package_row" where
  "loaded_row row w r ws rs =
     \<lparr>package = csv_package row,
      wall_materials = items_of w,
      roof_materials = items_of r,
      wall_materials_str = ws,
      roof_materials_str = rs,
      heating_demand_kwh_per_m2 = csv_heating_demand_kwh_per_m2 row,
      gwp_kgco2e = csv_gwp_kgco2e row,
      cost_sek = csv_cost_sek row\<rparr>"

definition load_data :: "csv_row list \<Rightarrow> py_error + data_frame" where
  "load_data csv =
     (case apply_series literal_eval (map csv_wall_materials csv) of Inl e \<Rightarrow> Inl e | Inr walls \<Rightarrow>
      case apply_series literal_eval (map csv_roof_materials csv) of Inl e \<Rightarrow> Inl e | Inr roofs \<Rightarrow>
      case apply_series comma_join walls of Inl e \<Rightarrow> Inl e | Inr wall_strs \<Rightarrow>
      case apply_series comma_join roofs of Inl e \<Rightarrow> Inl e | Inr roof_strs \<Rightarrow>
        Inr (map (\<lambda>(row, w, r, ws, rs). loaded_row row w r ws rs)
               (zip csv (zip walls (zip roofs (zip wall_strs roof_strs))))))"

definition csv_example :: "string \<Rightarrow> string \<Rightarrow> csv_row" where
  "csv_example w r =
     \<lparr>csv_package = ''P1'', csv_wall_materials = w, csv_roof_materials = r,
      csv_heating_demand_kwh_per_m2 = 50, csv_gwp_kgco2e = 10, csv_cost_sek = 100\<rparr>"

text \<open>
  The row of the file that holds a given package: the two material sequences are
  written in their textual form, as the specification's round trip has it.
\<close>

definition written_row :: "package_row \<Rightarrow> csv_row" where
  "written_row r =
     \<lparr>csv_package = package r,
      csv_wall_materials = repr_list (wall_materials r),
      csv_roof_materials = repr_list (roof_materials r),
      csv_heating_demand_kwh_per_m2 = heating_demand_kwh_per_m2 r,
      csv_gwp_kgco2e = gwp_kgco2e r,
      csv_cost_sek = cost_sek r\<rparr>"

section \<open>Zero weights\<close>

text \<open>
  Claim C1. Whatever the rows are, when the three raw weights add up to zero (in
  particular when all three are zero) the selector answers with its warning, the
  explicit signal that no criterion was selected. The answer carries no normalised
  weight, no score and no row, so nothing was divided or ranked.
\<close>

theorem zero_weights_give_warning:
  assumes "gw_raw + cw_raw + hw_raw = 0"
  shows "multi_criteria_selector argsort df gw_raw cw_raw hw_raw =
           Warning ''Please assign some weight to at least one criterion.''"
  using assms by (simp add: multi_criteria_selector_def)

theorem zero_weights_give_warning_witness:
  "(0::real) + 0 + 0 = 0 \<and>
   multi_criteria_selector stable_argsort [] 0 0 0 =
     Warning ''Please assign some weight to at least one criterion.''"
  using zero_weights_give_warning [where gw_raw = 0 and cw_raw = 0 and hw_raw = 0
      and argsort = stable_argsort and df = "[]"] by simp

section \<open>Fractional ranks in closed form\<close>

text \<open>
  In an ascending list the values below \<open>v\<close>, the values equal to \<open>v\<close> and the values
  above \<open>v\<close> form three consecutive blocks. The positions tied at \<open>v\<close> are therefore the
  numbers from \<open>a + 1\<close> to \<open>a + b\<close>, with \<open>a\<close> values below \<open>v\<close> and \<open>b\<close> values equal to it,
  and their mean is \<open>a + (b + 1) / 2\<close>.
\<close>

lemma sorted_split_less:
  fixes ys :: "real list"
  shows "sorted ys \<Longrightarrow> ys = filter (\<lambda>x. x < v) ys @ filter (\<lambda>x. \<not> x < v) ys"
proof (induction ys)
  case Nil
  then show ?case by simp
next
  case (Cons y ys)
  show ?case
  proof (cases "y < v")
    case True
    with Cons show ?thesis by simp
  next
    case False
    with Cons.prems have "\<forall>x\<in>set ys. \<not> x < v" by fastforce
    with False show ?thesis by (simp add: filter_empty_conv)
  qed
qed

lemma sorted_split_eq:
  fixes ys :: "real list"
  shows "sorted ys \<Longrightarrow> \<forall>x\<in>set ys. \<not> x < v \<Longrightarrow>
     ys = filter (\<lambda>x. x = v) ys @ filter (\<lambda>x. v < x) ys"
proof (induction ys)
  case Nil
  then show ?case by simp
next
  case (Cons y ys)
  show ?case
  proof (cases "y = v")
    case True
    with Cons show ?thesis by simp
  next
    case False
    with Cons.prems have a: "v < y" by auto
    with Cons.prems have "\<forall>x\<in>set ys. v < x" by fastforce
    then have "filter (\<lambda>x. x = v) ys = []" "filter (\<lambda>x. v < x) ys = ys"
      by (auto simp: filter_empty_conv)
    with False a show ?thesis by simp
  qed
qed

lemma sorted_three_blocks:
  fixes ys :: "real list"
  assumes "sorted ys"
  shows "ys = filter (\<lambda>x. x < v) ys @ filter (\<lambda>x. x = v) ys @ filter (\<lambda>x. v < x) ys"
proof -
  let ?hi = "filter (\<lambda>x. \<not> x < v) ys"
  have "sorted ?hi" using assms by (rule sorted_wrt_filter)
  moreover have "\<forall>x\<in>set ?hi. \<not> x < v" by simp
  ultimately have "?hi = filter (\<lambda>x. x = v) ?hi @ filter (\<lambda>x. v < x) ?hi"
    by (rule sorted_split_eq)
  moreover have "filter (\<lambda>x. x = v) ?hi = filter (\<lambda>x. x = v) ys"
    by (rule filter_cong [OF refl, THEN trans [OF filter_filter]]) auto
  moreover have "filter (\<lambda>x. v < x) ?hi = filter (\<lambda>x. v < x) ys"
    by (rule filter_cong [OF refl, THEN trans [OF filter_filter]]) auto
  ultimately have "?hi = filter (\<lambda>x. x = v) ys @ filter (\<lambda>x. v < x) ys" by simp
  with sorted_split_less [OF assms, of v] show ?thesis by simp
qed

lemma block_indices:
  assumes "\<forall>x\<in>set A. x \<noteq> v" "\<forall>x\<in>set B. x = v" "\<forall>x\<in>set C. x \<noteq> v"
  shows "filter (\<lambda>i. (A @ B @ C) ! i = v) [0..<length (A @ B @ C)]
           = [length A..<length A + length B]"
proof -
  let ?a = "length A" and ?b = "length B" and ?c = "length C"
  let ?P = "\<lambda>i. (A @ B @ C) ! i = v"
  have s1: "[0..<?a + ?b + ?c] = [0..<?a + ?b] @ [?a + ?b..<?a + ?b + ?c]"
    by (rule upt_add_eq_append) simp
  have s2: "[0..<?a + ?b] = [0..<?a] @ [?a..<?a + ?b]"
    by (rule upt_add_eq_append) simp
  have split: "[0..<length (A @ B @ C)] = [0..<?a] @ [?a..<?a + ?b] @ [?a + ?b..<?a + ?b + ?c]"
    using s1 s2 by (simp add: add.assoc)
  have 1: "filter ?P [0..<?a] = []"
    using assms(1) by (auto simp: filter_empty_conv nth_append)
  have 2: "filter ?P [?a..<?a + ?b] = [?a..<?a + ?b]"
    using assms(2) by (auto simp: filter_id_conv nth_append)
  have 3: "filter ?P [?a + ?b..<?a + ?b + ?c] = []"
  proof -
    have "\<not> ?P i" if "?a + ?b \<le> i" "i < ?a + ?b + ?c" for i
    proof -
      have "((A @ B) @ C) ! i = C ! (i - length (A @ B))"
        by (rule nth_append_right) (use that in simp)
      then have "(A @ B @ C) ! i = C ! (i - (?a + ?b))" by simp
      moreover have "C ! (i - (?a + ?b)) \<in> set C"
        using that by (intro nth_mem) simp
      ultimately show ?thesis using assms(3) by simp
    qed
    then show ?thesis by (simp add: filter_empty_conv)
  qed
  show ?thesis unfolding split by (simp only: filter_append 1 2 3 append_Nil append_Nil2)
qed

lemma tied_positions_block:
  "tied_positions vs v =
     map Suc [length (filter (\<lambda>x. x < v) vs)..<
              length (filter (\<lambda>x. x < v) vs) + length (filter (\<lambda>x. x = v) vs)]"
proof -
  let ?ys = "sort vs"
  let ?A = "filter (\<lambda>x. x < v) ?ys" and ?B = "filter (\<lambda>x. x = v) ?ys"
    and ?C = "filter (\<lambda>x. v < x) ?ys"
  have ys: "?ys = ?A @ ?B @ ?C" by (rule sorted_three_blocks) simp
  have "filter (\<lambda>i. (?A @ ?B @ ?C) ! i = v) [0..<length (?A @ ?B @ ?C)]
          = [length ?A..<length ?A + length ?B]"
    by (rule block_indices) auto
  with ys have "filter (\<lambda>i. ?ys ! i = v) [0..<length ?ys] = [length ?A..<length ?A + length ?B]"
    by simp
  moreover have "length ?A = length (filter (\<lambda>x. x < v) vs)"
    by (simp add: filter_sort)
  moreover have "length ?B = length (filter (\<lambda>x. x = v) vs)"
    by (simp add: filter_sort)
  ultimately show ?thesis by (simp add: tied_positions_def)
qed

lemma sum_list_Suc_block: "2 * sum_list (map Suc [a..<a + b]) = b * (2 * a + b + 1)"
  by (induction b) (simp_all add: algebra_simps)

lemma average_rank_closed_form:
  assumes "v \<in> set vs"
  shows "average_rank vs v =
           real (length (filter (\<lambda>x. x < v) vs))
           + (real (length (filter (\<lambda>x. x = v) vs)) + 1) / 2"
proof -
  let ?a = "length (filter (\<lambda>x. x < v) vs)" and ?b = "length (filter (\<lambda>x. x = v) vs)"
  have "filter (\<lambda>x. x = v) vs \<noteq> []" using assms by (auto simp: filter_empty_conv)
  then have b: "0 < ?b" by simp
  have "2 * real (sum_list (map Suc [?a..<?a + ?b])) = real ?b * (2 * real ?a + real ?b + 1)"
    using sum_list_Suc_block [of ?a ?b] by (metis (no_types, lifting) of_nat_mult of_nat_add of_nat_numeral of_nat_1)
  then have "real (sum_list (map Suc [?a..<?a + ?b])) / real ?b = real ?a + (real ?b + 1) / 2"
    using b by (simp add: field_simps)
  then show ?thesis by (simp add: average_rank_def tied_positions_block)
qed

section \<open>Sorting a frame\<close>

text \<open>
  What the contract of \<open>argsort\<close> gives for \<^verbatim>\<open>sort_values\<close>: the sorted frame holds the rows
  of the frame, each as often as the frame does, in ascending order of the column. Both
  algorithms defined above meet the contract. When no two rows agree on the column, the
  contract leaves one order only.
\<close>

lemma valid_argsort_positions:
  assumes "valid_argsort argsort"
  shows "set (argsort vs) = {0..<length vs}"
proof -
  from assms have "mset (argsort vs) = mset [0..<length vs]"
    by (simp add: valid_argsort_def)
  then have "set (argsort vs) = set [0..<length vs]" by (rule mset_eq_setD)
  then show ?thesis by simp
qed

lemma sort_values_sorted:
  assumes "valid_argsort argsort"
  shows "sorted (map col (sort_values argsort col df))"
proof -
  let ?vs = "map col df"
  have "map col (sort_values argsort col df) = map (\<lambda>i. ?vs ! i) (argsort ?vs)"
    using valid_argsort_positions [OF assms, of ?vs] by (simp add: sort_values_def)
  moreover have "sorted (map (\<lambda>i. ?vs ! i) (argsort ?vs))"
    using assms by (simp add: valid_argsort_def)
  ultimately show ?thesis by simp
qed

lemma sort_values_mset:
  assumes "valid_argsort argsort"
  shows "mset (sort_values argsort col df) = mset df"
proof -
  have "mset (sort_values argsort col df)
          = image_mset (\<lambda>i. df ! i) (mset (argsort (map col df)))"
    by (simp add: sort_values_def)
  also have "\<dots> = image_mset (\<lambda>i. df ! i) (mset [0..<length df])"
    using assms by (simp add: valid_argsort_def)
  also have "\<dots> = mset (map (\<lambda>i. df ! i) [0..<length df])" by simp
  also have "\<dots> = mset df" by (simp add: map_nth)
  finally show ?thesis .
qed

lemma sort_values_set:
  assumes "valid_argsort argsort"
  shows "set (sort_values argsort col df) = set df"
  using sort_values_mset [OF assms] by (rule mset_eq_setD)

lemma valid_stable_argsort: "valid_argsort stable_argsort"
  by (simp add: valid_argsort_def stable_argsort_def)





section \<open>The composite score and the ranked order\<close>

text \<open>
  The score column, computed column by column in the script, holds for each row the
  weighted sum of that row's three ranks. The average rank grows strictly with the
  value, so a column of average ranks orders the rows as the ranked column does.
\<close>

lemma series_plus_map: "series_plus (map f xs) (map g xs) = map (\<lambda>x. f x + g x) xs"
  by (induction xs) (simp_all add: series_plus_def)

lemma series_times_map: "series_times (map f xs) k = map (\<lambda>x. f x * k) xs"
  by (simp add: series_times_def)

lemma rank_map: "rank (map m df) = map (\<lambda>r. average_rank (map m df) (m r)) df"
  by (simp add: rank_def)

lemma score_column_rowwise:
  "score_column gw cw hw df =
     map (\<lambda>r. average_rank (map gwp_kgco2e df) (gwp_kgco2e r) * gw
             + average_rank (map cost_sek df) (cost_sek r) * cw
             + average_rank (map heating_demand_kwh_per_m2 df) (heating_demand_kwh_per_m2 r) * hw) df"
  by (simp only: score_column_def rank_map series_times_map series_plus_map)

lemma zip_with_column: "zip xs (map h xs) = map (\<lambda>x. (x, h x)) xs"
  by (induction xs) simp_all




lemma with_score_rowwise:
  "with_score gw cw hw df =
     map (\<lambda>r. (r, average_rank (map gwp_kgco2e df) (gwp_kgco2e r) * gw
             + average_rank (map cost_sek df) (cost_sek r) * cw
             + average_rank (map heating_demand_kwh_per_m2 df) (heating_demand_kwh_per_m2 r) * hw)) df"
  by (simp only: with_score_def score_column_rowwise zip_with_column)

lemma average_rank_is_fractional:
  "r \<in> set df \<Longrightarrow> average_rank (map m df) (m r) = fractional_rank (map m df) (m r)"
  by (simp add: average_rank_closed_form fractional_rank_def)

text \<open>
  Claim C2. For every data frame and every weight triple with a nonzero sum (the
  non-negative ones among them), the selector returns the normalised weights and the
  first six rows of the frame sorted ascending by score, whatever algorithm within its
  contract pandas sorts with. The sorted frame holds exactly the rows of the data frame,
  and the score of each row is the sum over gwp, cost and heating demand of normalised
  weight times fractional rank, the rank counting from 1 in ascending order with ties
  sharing the mean of their positions.
\<close>

theorem composite_score_ranking:
  assumes "gw_raw + cw_raw + hw_raw \<noteq> 0" and "valid_argsort argsort"
  shows "\<exists>gw cw hw ranked.
           multi_criteria_selector argsort df gw_raw cw_raw hw_raw
             = Top_custom gw cw hw (take 6 ranked) \<and>
           gw = gw_raw / (gw_raw + cw_raw + hw_raw) \<and>
           cw = cw_raw / (gw_raw + cw_raw + hw_raw) \<and>
           hw = hw_raw / (gw_raw + cw_raw + hw_raw) \<and>
           sorted (map snd ranked) \<and>
           mset (map fst ranked) = mset df \<and>
           (\<forall>(r, s) \<in> set ranked.
              s = gw * fractional_rank (map gwp_kgco2e df) (gwp_kgco2e r)
                + cw * fractional_rank (map cost_sek df) (cost_sek r)
                + hw * fractional_rank (map heating_demand_kwh_per_m2 df)
                         (heating_demand_kwh_per_m2 r))"
proof -
  let ?t = "gw_raw + cw_raw + hw_raw"
  let ?gw = "gw_raw / ?t" and ?cw = "cw_raw / ?t" and ?hw = "hw_raw / ?t"
  let ?ranked = "sort_values argsort snd (with_score ?gw ?cw ?hw df)"
  have sel: "multi_criteria_selector argsort df gw_raw cw_raw hw_raw
               = Top_custom ?gw ?cw ?hw (take 6 ?ranked)"
    using assms(1) by (simp add: multi_criteria_selector_def Let_def head_def)
  have srt: "sorted (map snd ?ranked)"
    using assms(2) by (rule sort_values_sorted)
  have "mset ?ranked = mset (with_score ?gw ?cw ?hw df)"
    using assms(2) by (rule sort_values_mset)
  then have "mset (map fst ?ranked) = mset (map fst (with_score ?gw ?cw ?hw df))"
    by (metis mset_map)
  also have "map fst (with_score ?gw ?cw ?hw df) = df"
    by (simp add: with_score_rowwise comp_def)
  finally have perm: "mset (map fst ?ranked) = mset df" .
  have sc: "\<forall>(r, s) \<in> set ?ranked.
              s = ?gw * fractional_rank (map gwp_kgco2e df) (gwp_kgco2e r)
                + ?cw * fractional_rank (map cost_sek df) (cost_sek r)
                + ?hw * fractional_rank (map heating_demand_kwh_per_m2 df)
                          (heating_demand_kwh_per_m2 r)"
    unfolding sort_values_set [OF assms(2)]
    by (auto simp: with_score_rowwise average_rank_is_fractional mult.commute)
  from sel srt perm sc show ?thesis by blast
qed

lemma example_ranks:
  "rank [10, 20, 15] = [1, 3, 2]" "rank [100, 50, 75] = [3, 1, 2]" "rank [50, 40, 45] = [3, 1, 2]"
  by (simp_all add: rank_def average_rank_def tied_positions_def upt_rec)

lemma example_with_score:
  "with_score (2/5) (3/10) (3/10) example_df =
     [(example_row ''A'' 10 100 50, 11/5), (example_row ''B'' 20 50 40, 9/5),
      (example_row ''C'' 15 75 45, 2)]"
  by (simp add: with_score_def score_column_def example_df_def example_row_def example_ranks
      series_plus_def series_times_def)

lemma stable_argsort_example_scores: "stable_argsort [11/5, 9/5, 2] = [1, 2, 0]"
  by (simp add: stable_argsort_def upt_rec)

theorem composite_score_ranking_witness:
  "(2/5::real) + 3/10 + 3/10 \<noteq> 0 \<and> valid_argsort stable_argsort \<and>
   multi_criteria_selector stable_argsort example_df (2/5) (3/10) (3/10) =
     Top_custom (2/5) (3/10) (3/10)
       [(example_row ''B'' 20 50 40, 9/5), (example_row ''C'' 15 75 45, 2),
        (example_row ''A'' 10 100 50, 11/5)]"
  using composite_score_ranking [where gw_raw = "2/5" and cw_raw = "3/10" and hw_raw = "3/10"
      and argsort = stable_argsort and df = example_df] valid_stable_argsort
  by (simp add: multi_criteria_selector_def Let_def head_def sort_values_def example_with_score
      stable_argsort_example_scores)

section \<open>Ranking by gwp alone\<close>









section \<open>Layer columns\<close>




section \<open>The ordinal encoding\<close>

text \<open>
  The value appended last by \<^const>\<open>unique\<close> is new, so the position of a value among the
  distinct values is the number of distinct values met before its first occurrence.
\<close>

lemma unique_snoc:
  "unique (xs @ [x]) = (if x \<in> set (unique xs) then unique xs else unique xs @ [x])"
  by (simp add: unique_def)

lemma set_unique: "set (unique xs) = set xs"
  by (induction xs rule: rev_induct) (auto simp: unique_snoc, simp add: unique_def)

lemma distinct_unique: "distinct (unique xs)"
  by (induction xs rule: rev_induct) (simp_all add: unique_snoc, simp add: unique_def)

lemma first_index_unique:
  assumes "v \<in> set xs"
  shows "length (takeWhile (\<lambda>x. x \<noteq> v) (unique xs)) = card (set (takeWhile (\<lambda>x. x \<noteq> v) xs))"
  using assms
proof (induction xs rule: rev_induct)
  case Nil
  then show ?case by simp
next
  case (snoc x xs)
  show ?case
  proof (cases "v \<in> set xs")
    case True
    then have "v \<in> set (unique xs)" by (simp add: set_unique)
    then have "takeWhile (\<lambda>x. x \<noteq> v) (unique (xs @ [x])) = takeWhile (\<lambda>x. x \<noteq> v) (unique xs)"
      by (auto simp: unique_snoc takeWhile_append1 in_set_conv_decomp)
    moreover have "takeWhile (\<lambda>x. x \<noteq> v) (xs @ [x]) = takeWhile (\<lambda>x. x \<noteq> v) xs"
      using True by (auto simp: takeWhile_append1 in_set_conv_decomp)
    ultimately show ?thesis using snoc.IH [OF True] by simp
  next
    case False
    with snoc.prems have vx: "v = x" by simp
    have nin: "x \<notin> set (unique xs)" using False vx by (simp add: set_unique)
    have "takeWhile (\<lambda>y. y \<noteq> x) (unique xs @ [x]) = unique xs"
      using nin by (subst takeWhile_append2) auto
    moreover have "takeWhile (\<lambda>y. y \<noteq> x) (xs @ [x]) = xs"
      using False vx by (subst takeWhile_append2) auto
    moreover have "length (unique xs) = card (set xs)"
      using distinct_card [OF distinct_unique, of xs] by (simp add: set_unique)
    ultimately show ?thesis using nin vx by (simp add: unique_snoc)
  qed
qed

lemma map_of_enumerate:
  assumes "v \<in> set ys"
  shows "map_of (zip ys [k..<k + length ys]) v = Some (k + length (takeWhile (\<lambda>x. x \<noteq> v) ys))"
  using assms
proof (induction ys arbitrary: k)
  case Nil
  then show ?case by simp
next
  case (Cons y ys)
  have upt: "[k..<k + length (y # ys)] = k # [Suc k..<Suc k + length ys]"
    by (simp add: upt_rec)
  show ?case
  proof (cases "y = v")
    case True
    then show ?thesis unfolding upt by simp
  next
    case False
    with Cons.prems have "v \<in> set ys" by simp
    from Cons.IH [OF this, of "Suc k"] False show ?thesis unfolding upt by simp
  qed
qed

lemma ordinal_of_value:
  assumes "v \<in> set xs"
  shows "map_of (zip (unique xs) [0..<length (unique xs)]) v
           = Some (card (set (takeWhile (\<lambda>x. x \<noteq> v) xs)))"
proof -
  have "v \<in> set (unique xs)" using assms by (simp add: set_unique)
  from map_of_enumerate [OF this, of 0] show ?thesis
    by (simp add: first_index_unique [OF assms])
qed

lemma tick_dict_lookup:
  assumes "v \<in> set (layer_column t l df)"
  shows "map_of (tick_dict t l df) v
           = Some (card (set (takeWhile (\<lambda>x. x \<noteq> v) (layer_column t l df))))"
  using ordinal_of_value [OF assms] by (simp add: tick_dict_def Let_def)

text \<open>
  Claim C9. For every layer column, the tick dictionary gives each observed value the
  number of distinct values that occur before its first occurrence in the column: 0 to
  the first value, 1 to the next new one, and so on. Every row's encoded cell is the
  ordinal that the dictionary gives to the row's value; no cell is NaN.
\<close>

theorem ordinal_encoding_first_occurrence:
  "length (dummy_column t l df) = length df \<and>
   (\<forall>v\<in>set (layer_column t l df).
      map_of (tick_dict t l df) v
        = Some (card (set (takeWhile (\<lambda>x. x \<noteq> v) (layer_column t l df))))) \<and>
   (\<forall>j<length df.
      dummy_column t l df ! j = map_of (tick_dict t l df) (layer_column t l df ! j) \<and>
      dummy_column t l df ! j
        = Some (card (set (takeWhile (\<lambda>x. x \<noteq> layer_column t l df ! j)
                                     (layer_column t l df)))))"
proof (intro conjI)
  show len: "length (dummy_column t l df) = length df"
    by (simp add: dummy_column_def layer_column_def)
  show "\<forall>v\<in>set (layer_column t l df).
      map_of (tick_dict t l df) v
        = Some (card (set (takeWhile (\<lambda>x. x \<noteq> v) (layer_column t l df))))"
    by (simp add: tick_dict_lookup)
  show "\<forall>j<length df.
      dummy_column t l df ! j = map_of (tick_dict t l df) (layer_column t l df ! j) \<and>
      dummy_column t l df ! j
        = Some (card (set (takeWhile (\<lambda>x. x \<noteq> layer_column t l df ! j)
                                     (layer_column t l df))))"
  proof (intro allI impI)
    fix j assume j: "j < length df"
    then have jl: "j < length (layer_column t l df)" by (simp add: layer_column_def)
    then have mem: "layer_column t l df ! j \<in> set (layer_column t l df)" by (rule nth_mem)
    have "dummy_column t l df ! j = map_of (tick_dict t l df) (layer_column t l df ! j)"
      using jl by (simp add: dummy_column_def)
    with tick_dict_lookup [OF mem]
    show "dummy_column t l df ! j = map_of (tick_dict t l df) (layer_column t l df ! j) \<and>
      dummy_column t l df ! j
        = Some (card (set (takeWhile (\<lambda>x. x \<noteq> layer_column t l df ! j)
                                     (layer_column t l df))))"
      by simp
  qed
qed

theorem ordinal_encoding_first_occurrence_witness:
  "tick_dict wall cladding materials_df = [(''brick'', 0), (''wood'', 1)] \<and>
   dummy_column wall cladding materials_df = [Some 0, Some 1, Some 0] \<and>
   tick_dict roof insulation materials_df = [(''wool'', 0), (''foam'', 1), (''None'', 2)] \<and>
   dummy_column roof insulation materials_df = [Some 0, Some 1, Some 2]"
  using ordinal_encoding_first_occurrence [of wall cladding materials_df]
  by (simp add: dummy_column_def tick_dict_def unique_def layer_column_def layer_of_def
      materials_df_def materials_row_def upt_rec)

lemma tick_dict_nth:
  assumes "i < length (unique (layer_column t l df))"
  shows "map_of (tick_dict t l df) (unique (layer_column t l df) ! i) = Some i"
proof -
  let ?u = "unique (layer_column t l df)"
  have "map_of (zip ?u [0..<length ?u]) (?u ! i) = Some ([0..<length ?u] ! i)"
    by (rule map_of_zip_nth) (use assms in \<open>simp_all add: distinct_unique\<close>)
  then show ?thesis using assms by (simp add: tick_dict_def Let_def)
qed

lemma length_unique: "length (unique xs) = card (set xs)"
  using distinct_card [OF distinct_unique, of xs] by (simp add: set_unique)

text \<open>
  Claim C10. For every layer column with \<open>k\<close> distinct observed values, the tick
  dictionary is a bijection between those values and the numbers \<open>0, \<dots>, k - 1\<close>. The
  column's dimension of the parallel-coordinates plot carries the tick values
  \<open>0, \<dots>, k - 1\<close> and as tick texts the \<open>k\<close> distinct values, each once, the text at
  position \<open>i\<close> being the value whose ordinal is the tick value at position \<open>i\<close>. So two
  different materials never share an axis position. Each of the six columns of
  \<^verbatim>\<open>material_cols\<close> has its dimension in the list of dimensions.
\<close>

theorem ordinal_encoding_bijection:
  "bij_betw (\<lambda>v. the (map_of (tick_dict t l df) v))
     (set (layer_column t l df)) {0..<card (set (layer_column t l df))} \<and>
   tickvals (dimension_of t l df) = [0..<card (set (layer_column t l df))] \<and>
   length (ticktext (dimension_of t l df)) = card (set (layer_column t l df)) \<and>
   distinct (ticktext (dimension_of t l df)) \<and>
   set (ticktext (dimension_of t l df)) = set (layer_column t l df) \<and>
   zip (ticktext (dimension_of t l df)) (tickvals (dimension_of t l df)) = tick_dict t l df \<and>
   (\<forall>i<card (set (layer_column t l df)).
      map_of (tick_dict t l df) (ticktext (dimension_of t l df) ! i)
        = Some (tickvals (dimension_of t l df) ! i)) \<and>
   (t, l) \<in> set material_cols \<and>
   dimension_of t l df \<in> set (dimensions df)"
proof -
  let ?col = "layer_column t l df"
  let ?u = "unique ?col"
  let ?k = "card (set ?col)"
  let ?f = "\<lambda>v. the (map_of (tick_dict t l df) v)"
  have k: "length ?u = ?k" by (rule length_unique)
  have tv: "tickvals (dimension_of t l df) = [0..<?k]"
    by (simp add: dimension_of_def tick_dict_def Let_def k)
  have tt: "ticktext (dimension_of t l df) = ?u"
    by (simp add: dimension_of_def tick_dict_def Let_def)
  have nth: "?f (?u ! i) = i" if "i < ?k" for i
    using tick_dict_nth [of i t l df] that k by simp
  have bij: "bij_betw ?f (set ?col) {0..<?k}"
  proof (rule bij_betw_byWitness [where f' = "\<lambda>i. ?u ! i"])
    show "\<forall>v\<in>set ?col. ?u ! ?f v = v"
    proof
      fix v assume "v \<in> set ?col"
      then have "v \<in> set ?u" by (simp add: set_unique)
      then obtain i where "i < length ?u" "?u ! i = v" by (meson in_set_conv_nth)
      with nth [of i] k show "?u ! ?f v = v" by simp
    qed
    show "\<forall>i\<in>{0..<?k}. ?f (?u ! i) = i" using nth by simp
    show "?f ` set ?col \<subseteq> {0..<?k}"
    proof
      fix n assume "n \<in> ?f ` set ?col"
      then obtain v where v: "v \<in> set ?col" "n = ?f v" by auto
      then have "v \<in> set ?u" by (simp add: set_unique)
      then obtain i where "i < length ?u" "?u ! i = v" by (meson in_set_conv_nth)
      with nth [of i] k v show "n \<in> {0..<?k}" by simp
    qed
    show "(\<lambda>i. ?u ! i) ` {0..<?k} \<subseteq> set ?col"
    proof
      fix x assume "x \<in> (\<lambda>i. ?u ! i) ` {0..<?k}"
      then obtain i where i: "i < ?k" "x = ?u ! i" by auto
      then have "?u ! i \<in> set ?u" by (intro nth_mem) (simp only: k)
      with i show "x \<in> set ?col" by (simp only: set_unique)
    qed
  qed
  have pairs: "\<forall>i<?k. map_of (tick_dict t l df) (ticktext (dimension_of t l df) ! i)
        = Some (tickvals (dimension_of t l df) ! i)"
    using tick_dict_nth [of _ t l df] k by (simp add: tv tt)
  have zp: "zip (ticktext (dimension_of t l df)) (tickvals (dimension_of t l df)) = tick_dict t l df"
    by (simp add: dimension_of_def zip_map_fst_snd)
  have cols: "(t, l) \<in> set material_cols"
    by (cases t; cases l) (simp_all add: material_cols_def)
  have "(\<lambda>(t, l). dimension_of t l df) (t, l) \<in> (\<lambda>(t, l). dimension_of t l df) ` set material_cols"
    using cols by (rule imageI)
  then have dims: "dimension_of t l df \<in> set (dimensions df)"
    by (simp only: dimensions_def set_map prod.case)
  have len: "length (ticktext (dimension_of t l df)) = ?k" by (simp only: tt k)
  have dist: "distinct (ticktext (dimension_of t l df))" by (simp only: tt distinct_unique)
  have st: "set (ticktext (dimension_of t l df)) = set ?col" by (simp only: tt set_unique)
  show ?thesis
    by (intro conjI) (fact bij tv len dist st zp pairs cols dims)+
qed

lemma roof_insulation_column:
  "layer_column roof insulation materials_df = [''wool'', ''foam'', ''None'']"
  by (simp add: layer_column_def layer_of_def materials_df_def materials_row_def)

theorem ordinal_encoding_bijection_witness:
  "tickvals (dimension_of roof insulation materials_df) = [0, 1, 2] \<and>
   ticktext (dimension_of roof insulation materials_df) = [''wool'', ''foam'', ''None'']"
proof -
  have c: "card (set (layer_column roof insulation materials_df)) = 3"
    by (simp add: roof_insulation_column)
  have "tickvals (dimension_of roof insulation materials_df)
          = [0..<card (set (layer_column roof insulation materials_df))]"
    using ordinal_encoding_bijection [of roof insulation materials_df] by (elim conjE)
  then have a: "tickvals (dimension_of roof insulation materials_df) = [0, 1, 2]"
    by (simp add: c upt_rec)
  have b: "ticktext (dimension_of roof insulation materials_df) = [''wool'', ''foam'', ''None'']"
    by (simp add: dimension_of_def tick_dict_def roof_insulation_column unique_def)
  from a b show ?thesis by simp
qed

section \<open>Summary statistics on empty and non-empty frames\<close>

lemma sort_values_empty:
  assumes "valid_argsort argsort"
  shows "sort_values argsort col [] = []"
  using sort_values_mset [OF assms, of col "[]"] by simp

lemma best_pkg_empty:
  assumes "valid_argsort argsort"
  shows "best_pkg argsort col [] = Inl IndexError"
  by (simp add: best_pkg_def iloc_def sort_values_empty [OF assms])

lemma best_pkg_nonempty:
  assumes "valid_argsort argsort" "df \<noteq> []"
  shows "\<exists>r. best_pkg argsort col df = Inr r \<and> r \<in> set df \<and> (\<forall>r'\<in>set df. col r \<le> col r')"
proof -
  let ?s = "sort_values argsort col df"
  have ms: "mset ?s = mset df" using assms(1) by (rule sort_values_mset)
  with assms(2) have "?s \<noteq> []" by auto
  then obtain x xs where s: "?s = x # xs" by (cases ?s) auto
  have "sorted (map col ?s)" using assms(1) by (rule sort_values_sorted)
  with s have le: "\<forall>y\<in>set xs. col x \<le> col y" by simp
  have st: "set df = insert x (set xs)" using mset_eq_setD [OF ms] s by simp
  have "best_pkg argsort col df = Inr x" by (simp add: best_pkg_def iloc_def s)
  with le st show ?thesis by auto
qed

lemma median_nonempty:
  assumes "vs \<noteq> []"
  shows "\<exists>x. median vs = Number x"
proof (cases "odd (length (sort vs))")
  case True
  with assms have "median vs = Number (sort vs ! (length (sort vs) div 2))"
    by (simp add: median_def Let_def)
  then show ?thesis by (rule exI)
next
  case False
  with assms have "median vs = Number ((sort vs ! (length (sort vs) div 2 - 1)
                                        + sort vs ! (length (sort vs) div 2)) / 2)"
    by (simp add: median_def Let_def)
  then show ?thesis by (rule exI)
qed

lemma series_min_nonempty: "vs \<noteq> [] \<Longrightarrow> series_min vs = Number (Min (set vs))"
  by (cases vs) (simp_all add: Min.set_eq_fold [symmetric])

lemma series_max_nonempty: "vs \<noteq> [] \<Longrightarrow> series_max vs = Number (Max (set vs))"
  by (cases vs) (simp_all add: Max.set_eq_fold [symmetric])

lemma summary_statistics_nonempty:
  assumes "valid_argsort argsort" "df \<noteq> []"
  shows "\<exists>s. summary_statistics argsort df = Inr s \<and>
             best_pkg argsort heating_demand_kwh_per_m2 df = Inr (best_heat_pkg s) \<and>
             best_pkg argsort gwp_kgco2e df = Inr (best_gwp_pkg s) \<and>
             best_pkg argsort cost_sek df = Inr (best_cost_pkg s) \<and>
             (\<exists>x. median_heat s = Number x) \<and>
             (\<exists>x. median_gwp s = Number x) \<and>
             (\<exists>x. median_cost s = Number x) \<and>
             cost_min s = Number (Min (cost_sek ` set df)) \<and>
             cost_max s = Number (Max (cost_sek ` set df))"
proof -
  obtain bh where bh: "best_pkg argsort heating_demand_kwh_per_m2 df = Inr bh"
    using best_pkg_nonempty [OF assms] by blast
  obtain bg where bg: "best_pkg argsort gwp_kgco2e df = Inr bg"
    using best_pkg_nonempty [OF assms] by blast
  obtain bc where bc: "best_pkg argsort cost_sek df = Inr bc"
    using best_pkg_nonempty [OF assms] by blast
  let ?s = "\<lparr>best_heat_pkg = bh, best_gwp_pkg = bg, best_cost_pkg = bc,
             median_heat = median (map heating_demand_kwh_per_m2 df),
             median_gwp = median (map gwp_kgco2e df),
             median_cost = median (map cost_sek df),
             cost_min = series_min (map cost_sek df),
             cost_max = series_max (map cost_sek df)\<rparr>"
  have ne: "map col df \<noteq> []" for col :: "package_row \<Rightarrow> real" using assms(2) by simp
  have "summary_statistics argsort df = Inr ?s"
    by (simp add: summary_statistics_def bh bg bc)
  moreover have "\<exists>x. median_heat ?s = Number x" "\<exists>x. median_gwp ?s = Number x"
    "\<exists>x. median_cost ?s = Number x"
    using median_nonempty [OF ne] by simp_all
  moreover have "cost_min ?s = Number (Min (cost_sek ` set df))"
    "cost_max ?s = Number (Max (cost_sek ` set df))"
    using series_min_nonempty [OF ne] series_max_nonempty [OF ne] by simp_all
  ultimately show ?thesis using bh bg bc by (intro exI [of _ ?s]) simp
qed

text \<open>
  Claim C8. On a frame without rows the best package of a metric raises pandas'
  \<^verbatim>\<open>IndexError\<close>, the error the script has for an empty data set, and the summary
  statistics as a whole end with it: no median, minimum or maximum is computed. On a
  frame with at least one row the best package of a metric is a row of the frame whose
  metric is at most the metric of every row, and the summary statistics succeed: the
  three best packages are returned, the three medians are numbers, and the cost range
  runs from the least to the greatest cost of the frame.
\<close>

theorem empty_frame_raises_nonempty_succeeds:
  assumes "valid_argsort argsort"
  shows "best_pkg argsort col [] = Inl IndexError \<and>
         summary_statistics argsort [] = Inl IndexError \<and>
         (df \<noteq> [] \<longrightarrow>
            (\<exists>r. best_pkg argsort col df = Inr r \<and> r \<in> set df \<and>
                 (\<forall>r'\<in>set df. col r \<le> col r')) \<and>
            (\<exists>s. summary_statistics argsort df = Inr s \<and>
                 best_pkg argsort heating_demand_kwh_per_m2 df = Inr (best_heat_pkg s) \<and>
                 best_pkg argsort gwp_kgco2e df = Inr (best_gwp_pkg s) \<and>
                 best_pkg argsort cost_sek df = Inr (best_cost_pkg s) \<and>
                 (\<exists>x. median_heat s = Number x) \<and>
                 (\<exists>x. median_gwp s = Number x) \<and>
                 (\<exists>x. median_cost s = Number x) \<and>
                 cost_min s = Number (Min (cost_sek ` set df)) \<and>
                 cost_max s = Number (Max (cost_sek ` set df))))"
proof (intro conjI impI)
  show "best_pkg argsort col [] = Inl IndexError" using assms by (rule best_pkg_empty)
  show "summary_statistics argsort [] = Inl IndexError"
    by (simp add: summary_statistics_def best_pkg_empty [OF assms])
next
  assume ne: "df \<noteq> []"
  show "\<exists>r. best_pkg argsort col df = Inr r \<and> r \<in> set df \<and> (\<forall>r'\<in>set df. col r \<le> col r')"
    using assms ne by (rule best_pkg_nonempty)
  show "\<exists>s. summary_statistics argsort df = Inr s \<and>
             best_pkg argsort heating_demand_kwh_per_m2 df = Inr (best_heat_pkg s) \<and>
             best_pkg argsort gwp_kgco2e df = Inr (best_gwp_pkg s) \<and>
             best_pkg argsort cost_sek df = Inr (best_cost_pkg s) \<and>
             (\<exists>x. median_heat s = Number x) \<and>
             (\<exists>x. median_gwp s = Number x) \<and>
             (\<exists>x. median_cost s = Number x) \<and>
             cost_min s = Number (Min (cost_sek ` set df)) \<and>
             cost_max s = Number (Max (cost_sek ` set df))"
    using assms ne by (rule summary_statistics_nonempty)
qed

lemma stable_argsort_example_columns:
  "stable_argsort [50, 40, 45] = [1, 2, 0]" "stable_argsort [10, 20, 15] = [0, 2, 1]"
  "stable_argsort [100, 50, 75] = [1, 2, 0]"
  by (simp_all add: stable_argsort_def upt_rec)

theorem empty_frame_raises_nonempty_succeeds_witness:
  "valid_argsort stable_argsort \<and> example_df \<noteq> [] \<and>
   summary_statistics stable_argsort [] = Inl IndexError \<and>
   summary_statistics stable_argsort example_df =
     Inr \<lparr>best_heat_pkg = example_row ''B'' 20 50 40,
          best_gwp_pkg = example_row ''A'' 10 100 50,
          best_cost_pkg = example_row ''B'' 20 50 40,
          median_heat = Number 45, median_gwp = Number 15, median_cost = Number 75,
          cost_min = Number 50, cost_max = Number 100\<rparr>"
  using empty_frame_raises_nonempty_succeeds [OF valid_stable_argsort, of gwp_kgco2e example_df]
    valid_stable_argsort
  by (simp add: summary_statistics_def best_pkg_def iloc_def sort_values_def median_def
      example_df_def example_row_def stable_argsort_example_columns)

section \<open>Parsing the textual form of a list of strings\<close>

text \<open>
  Reading the \<^verbatim>\<open>repr\<close> of one character inside a string literal appends that character;
  so reading the \<^verbatim>\<open>repr\<close> of a string yields the string, and reading the items of a list
  one after the other yields the list.
\<close>

lemma hex_value_hex_digit: "d < 16 \<Longrightarrow> hex_value (hex_digit d) = Some d"
  by (simp add: hex_value_def hex_digit_def Let_def)

lemma char_of_hex_pair: "char_of (16 * (of_char c div 16) + of_char c mod 16 :: nat) = c"
  by simp

lemma scan_step: "step st c = Inr st' \<Longrightarrow> scan st (c # cs) = scan st' cs"
  by (cases st) simp_all

lemma printable_plain:
  assumes "printable c"
  shows "c \<noteq> CHR 0x0A" "c \<noteq> CHR 0x0D" "c \<noteq> CHR 0x00"
  using assms by (auto simp: printable_def Let_def)

lemma scan_repr_char:
  assumes q: "is_quote q"
  shows "scan (In_str ctx q acc) (repr_char q c @ rest) = scan (In_str ctx q (acc @ [c])) rest"
proof -
  have qb: "q \<noteq> CHR 0x5C" using q by (auto simp: is_quote_def)
  consider (quoted) "c = q \<or> c = CHR 0x5C"
    | (tab) "c \<noteq> q" "c \<noteq> CHR 0x5C" "c = CHR 0x09"
    | (lf) "c \<noteq> q" "c \<noteq> CHR 0x5C" "c = CHR 0x0A"
    | (cr) "c \<noteq> q" "c \<noteq> CHR 0x5C" "c = CHR 0x0D"
    | (plain) "c \<noteq> q" "c \<noteq> CHR 0x5C" "c \<noteq> CHR 0x09" "c \<noteq> CHR 0x0A" "c \<noteq> CHR 0x0D" "printable c"
    | (hex) "c \<noteq> q" "c \<noteq> CHR 0x5C" "c \<noteq> CHR 0x09" "c \<noteq> CHR 0x0A" "c \<noteq> CHR 0x0D" "\<not> printable c"
    by blast
  then show ?thesis
  proof cases
    case quoted
    then have r: "repr_char q c = [CHR 0x5C, c]" by (simp add: repr_char_def)
    have e: "escape c = Some c" "c \<noteq> CHR ''x''"
      using quoted q by (auto simp: is_quote_def)
    show ?thesis using qb e by (simp add: r)
  next
    case tab
    then show ?thesis using qb by (simp add: repr_char_def is_quote_def)
  next
    case lf
    then show ?thesis using qb by (simp add: repr_char_def is_quote_def)
  next
    case cr
    then show ?thesis using qb by (simp add: repr_char_def is_quote_def)
  next
    case plain
    then show ?thesis using printable_plain [OF plain(6)] by (simp add: repr_char_def)
  next
    case hex
    let ?n = "of_char c :: nat"
    have r: "repr_char q c = [CHR 0x5C, CHR ''x'', hex_digit (?n div 16), hex_digit (?n mod 16)]"
      using hex by (simp add: repr_char_def)
    have "?n < 256" by simp
    then have d: "?n div 16 < 16" by arith
    have h1: "hex_value (hex_digit (?n div 16)) = Some (?n div 16)"
      using d by (rule hex_value_hex_digit)
    have h2: "hex_value (hex_digit (?n mod 16)) = Some (?n mod 16)"
      by (rule hex_value_hex_digit) simp
    show ?thesis using qb by (simp add: r h1 h2)
  qed
qed

lemma scan_repr_body:
  assumes "is_quote q"
  shows "scan (In_str ctx q acc) (concat (map (repr_char q) s) @ rest)
           = scan (In_str ctx q (acc @ s)) rest"
proof (induction s arbitrary: acc)
  case Nil
  then show ?case by simp
next
  case (Cons c s)
  show ?case
    using scan_repr_char [OF assms, of ctx acc c "concat (map (repr_char q) s) @ rest"]
      Cons.IH [of "acc @ [c]"]
    by simp
qed

lemma is_quote_repr_quote: "is_quote (repr_quote s)"
  by (simp add: is_quote_def repr_quote_def)

lemma scan_repr_str:
  "scan (Want ctx) (repr_str s @ rest) = scan (complete ctx (PStr s)) rest"
proof -
  let ?q = "repr_quote s"
  have q: "is_quote ?q" by (rule is_quote_repr_quote)
  then have nb: "\<not> is_blank ?q" "?q \<noteq> CHR ''[''" "?q \<noteq> CHR '']''"
    by (auto simp: is_quote_def is_blank_def)
  have "scan (Want ctx) (repr_str s @ rest)
          = scan (In_str ctx ?q []) (concat (map (repr_char ?q) s) @ ?q # rest)"
    using q nb by (simp add: repr_str_def Let_def)
  also have "\<dots> = scan (In_str ctx ?q ([] @ s)) (?q # rest)"
    by (rule scan_repr_body [OF q])
  also have "\<dots> = scan (complete ctx (PStr s)) rest" by simp
  finally show ?thesis .
qed

lemma scan_repr_items:
  "scan (Want (items # outer)) (join '', '' (map repr_str xs) @ CHR '']'' # rest)
     = scan (complete outer (PList (items @ map PStr xs))) rest"
proof (induction xs arbitrary: items rule: induct_list012)
  case 1
  then show ?case by (simp add: is_blank_def)
next
  case (2 x)
  have "scan (Want (items # outer)) (repr_str x @ CHR '']'' # rest)
          = scan (complete (items # outer) (PStr x)) (CHR '']'' # rest)"
    by (rule scan_repr_str)
  then show ?case by (simp add: is_blank_def)
next
  case (3 x y zs)
  let ?tail = "join '', '' (map repr_str (y # zs)) @ CHR '']'' # rest"
  have "scan (Want (items # outer)) (repr_str x @ '', '' @ ?tail)
          = scan (complete (items # outer) (PStr x)) ('', '' @ ?tail)"
    by (rule scan_repr_str)
  also have "\<dots> = scan (Want ((items @ [PStr x]) # outer)) ?tail"
    by (simp add: is_blank_def)
  also have "\<dots> = scan (complete outer (PList ((items @ [PStr x]) @ map PStr (y # zs)))) rest"
    by (rule "3.IH"(2))
  finally show ?case by simp
qed

lemma literal_eval_repr_list: "literal_eval (repr_list xs) = Inr (PList (map PStr xs))"
proof -
  have "literal_eval (repr_list xs)
          = scan (Want [[]]) (join '', '' (map repr_str xs) @ CHR '']'' # [])"
    by (simp add: literal_eval_def repr_list_def is_blank_def)
  also have "\<dots> = scan (complete [] (PList ([] @ map PStr xs))) []"
    by (rule scan_repr_items)
  finally show ?thesis by simp
qed

lemma str_items_strings: "str_items (PList (map PStr xs)) = Inr xs"
  by (simp add: list_all_iff comp_def)

lemma apply_series_map_ok:
  assumes "\<And>x. x \<in> set xs \<Longrightarrow> f (g x) = Inr (h x)"
  shows "apply_series f (map g xs) = Inr (map h xs)"
  using assms by (induction xs) simp_all

lemma zip_rows:
  "map (\<lambda>(row, w, r, ws, rs). F row w r ws rs)
     (zip (map a xs) (zip (map b xs) (zip (map c xs) (zip (map d xs) (map e xs)))))
   = map (\<lambda>x. F (a x) (b x) (c x) (d x) (e x)) xs"
  by (induction xs) simp_all

lemma comma_join_strings: "comma_join (PList (map PStr xs)) = Inr (join '', '' xs)"
  by (simp only: comma_join_def str_items_strings sum.case)

lemma items_of_strings: "items_of (PList (map PStr xs)) = xs"
  by (simp only: items_of_def str_items_strings sum.case)

lemma load_written:
  "load_data (map written_row df) =
     Inr (map (\<lambda>r. r\<lparr>wall_materials_str := join '', '' (wall_materials r),
                        roof_materials_str := join '', '' (roof_materials r)\<rparr>) df)"
proof -
  let ?w = "\<lambda>r. PList (map PStr (wall_materials r))"
  let ?r = "\<lambda>r. PList (map PStr (roof_materials r))"
  have w: "apply_series literal_eval (map csv_wall_materials (map written_row df)) = Inr (map ?w df)"
    unfolding map_map
    by (rule apply_series_map_ok) (simp add: written_row_def literal_eval_repr_list)
  have r: "apply_series literal_eval (map csv_roof_materials (map written_row df)) = Inr (map ?r df)"
    unfolding map_map
    by (rule apply_series_map_ok) (simp add: written_row_def literal_eval_repr_list)
  have ws: "apply_series comma_join (map ?w df) = Inr (map (\<lambda>r. join '', '' (wall_materials r)) df)"
    by (rule apply_series_map_ok) (simp add: comma_join_strings)
  have rs: "apply_series comma_join (map ?r df) = Inr (map (\<lambda>r. join '', '' (roof_materials r)) df)"
    by (rule apply_series_map_ok) (simp add: comma_join_strings)
  have "load_data (map written_row df) =
          Inr (map (\<lambda>x. loaded_row (written_row x) (?w x) (?r x)
                          (join '', '' (wall_materials x)) (join '', '' (roof_materials x))) df)"
    by (simp only: load_data_def w r ws rs sum.case zip_rows)
  then show ?thesis
    by (simp add: loaded_row_def written_row_def items_of_strings)
qed

text \<open>
  Claim C7. For every list of strings, decoding the textual form of the list gives
  back the list of exactly those strings in the same order. Hence loading a file whose
  rows were written from a data frame restores the wall and roof material sequences of
  every row.
\<close>

theorem list_literal_round_trip:
  "literal_eval (repr_list xs) = Inr (PList (map PStr xs)) \<and>
   str_items (PList (map PStr xs)) = Inr xs \<and>
   load_data (map written_row df) =
     Inr (map (\<lambda>r. r\<lparr>wall_materials_str := join '', '' (wall_materials r),
                        roof_materials_str := join '', '' (roof_materials r)\<rparr>) df) \<and>
   (\<forall>df'. load_data (map written_row df) = Inr df' \<longrightarrow>
      map wall_materials df' = map wall_materials df \<and>
      map roof_materials df' = map roof_materials df)"
proof (intro conjI allI impI)
  show "literal_eval (repr_list xs) = Inr (PList (map PStr xs))"
    by (rule literal_eval_repr_list)
  show "str_items (PList (map PStr xs)) = Inr xs"
    by (rule str_items_strings)
  show "load_data (map written_row df) =
     Inr (map (\<lambda>r. r\<lparr>wall_materials_str := join '', '' (wall_materials r),
                        roof_materials_str := join '', '' (roof_materials r)\<rparr>) df)"
    by (rule load_written)
next
  fix df' assume "load_data (map written_row df) = Inr df'"
  then have df': "df' = map (\<lambda>r. r\<lparr>wall_materials_str := join '', '' (wall_materials r),
                        roof_materials_str := join '', '' (roof_materials r)\<rparr>) df"
    by (simp add: load_written)
  show "map wall_materials df' = map wall_materials df" by (simp add: df' comp_def)
  show "map roof_materials df' = map roof_materials df" by (simp add: df' comp_def)
qed

theorem list_literal_round_trip_witness:
  "repr_list [''brick'', ''membraneX'', ''woolY''] = ''['brick', 'membraneX', 'woolY']'' \<and>
   literal_eval ''['brick', 'membraneX', 'woolY']''
     = Inr (PList [PStr ''brick'', PStr ''membraneX'', PStr ''woolY''])"
proof -
  have a: "repr_list [''brick'', ''membraneX'', ''woolY''] = ''['brick', 'membraneX', 'woolY']''"
    by (simp add: repr_list_def repr_str_def repr_quote_def repr_char_def printable_def Let_def)
  from list_literal_round_trip [of "[''brick'', ''membraneX'', ''woolY'']" "[]"]
  have "literal_eval (repr_list [''brick'', ''membraneX'', ''woolY''])
          = Inr (PList (map PStr [''brick'', ''membraneX'', ''woolY'']))" by (elim conjE)
  with a show ?thesis by simp
qed

section \<open>Loading a file with a cell that does not decode\<close>

text \<open>
  \<^verbatim>\<open>Series.apply\<close> returns a column only when the function returned on every cell, and
  \<^verbatim>\<open>load_data\<close> returns a frame only when its four \<^verbatim>\<open>apply\<close> calls did. When the
  decoder does not return a value, it ends with one of two outcomes.
\<close>

lemma apply_series_Inr:
  assumes "apply_series f xs = Inr ys"
  shows "length ys = length xs \<and> (\<forall>i<length xs. f (xs ! i) = Inr (ys ! i))"
  using assms
proof (induction xs arbitrary: ys)
  case Nil
  then show ?case by simp
next
  case (Cons x xs)
  from Cons.prems obtain y ys' where
    y: "f x = Inr y" and ys': "apply_series f xs = Inr ys'" and eq: "ys = y # ys'"
    by (auto split: sum.splits)
  from Cons.IH [OF ys'] have ih: "length ys' = length xs" "\<forall>i<length xs. f (xs ! i) = Inr (ys' ! i)"
    by simp_all
  show ?case
  proof (intro conjI allI impI)
    show "length ys = length (x # xs)" using ih(1) eq by simp
    fix i assume "i < length (x # xs)"
    then show "f ((x # xs) ! i) = Inr (ys ! i)"
      using y ih(2) eq by (cases i) simp_all
  qed
qed

lemma apply_series_Inl:
  assumes "apply_series f xs = Inl e"
  shows "\<exists>x\<in>set xs. f x = Inl e"
  using assms
proof (induction xs)
  case Nil
  then show ?case by simp
next
  case (Cons x xs)
  then show ?case by (auto split: sum.splits)
qed

lemma step_errors:
  assumes "step st c = Inl e"
  shows "e = Malformed_literal \<or> e = Outside_fragment"
proof (cases st)
  case (Want ctx)
  with assms show ?thesis by (cases ctx) (auto split: if_splits)
next
  case (After items outer)
  with assms show ?thesis by (auto split: if_splits)
next
  case (Done v)
  with assms show ?thesis by (auto split: if_splits)
next
  case (In_str ctx q acc)
  with assms show ?thesis by (auto split: if_splits)
next
  case (In_esc ctx q acc)
  with assms show ?thesis by (auto split: if_splits option.splits)
next
  case (In_hex1 ctx q acc)
  with assms show ?thesis by (auto split: option.splits)
next
  case (In_hex2 ctx q acc d)
  with assms show ?thesis by (auto split: option.splits)
qed

lemma scan_errors:
  assumes "scan st s = Inl e"
  shows "e = Malformed_literal \<or> e = Outside_fragment"
  using assms
proof (induction s arbitrary: st)
  case Nil
  then show ?case by (cases st) simp_all
next
  case (Cons c s)
  show ?case
  proof (cases "step st c")
    case (Inl e')
    with Cons.prems have "e' = e" by (cases st) simp_all
    with Inl show ?thesis using step_errors by blast
  next
    case (Inr st')
    with Cons.prems have "scan st' s = Inl e" by (simp add: scan_step)
    then show ?thesis by (rule Cons.IH)
  qed
qed

lemma comma_join_items:
  assumes "comma_join x = Inr t"
  shows "str_items x = Inr (items_of x) \<and> t = join '', '' (items_of x)"
  using assms by (auto simp: comma_join_def items_of_def split: sum.splits)

lemma load_data_Inr:
  assumes "load_data csv = Inr df"
  shows "length df = length csv \<and>
     (\<forall>i<length csv. \<exists>w r.
        literal_eval (csv_wall_materials (csv ! i)) = Inr w \<and>
        literal_eval (csv_roof_materials (csv ! i)) = Inr r \<and>
        str_items w = Inr (wall_materials (df ! i)) \<and>
        str_items r = Inr (roof_materials (df ! i)) \<and>
        wall_materials_str (df ! i) = join '', '' (wall_materials (df ! i)) \<and>
        roof_materials_str (df ! i) = join '', '' (roof_materials (df ! i)) \<and>
        package (df ! i) = csv_package (csv ! i))"
proof -
  from assms obtain walls roofs wall_strs roof_strs where
    w: "apply_series literal_eval (map csv_wall_materials csv) = Inr walls" and
    r: "apply_series literal_eval (map csv_roof_materials csv) = Inr roofs" and
    ws: "apply_series comma_join walls = Inr wall_strs" and
    rs: "apply_series comma_join roofs = Inr roof_strs" and
    df: "df = map (\<lambda>(row, w, r, ws, rs). loaded_row row w r ws rs)
               (zip csv (zip walls (zip roofs (zip wall_strs roof_strs))))"
    by (auto simp: load_data_def split: sum.splits)
  note W = apply_series_Inr [OF w] and R = apply_series_Inr [OF r]
    and WS = apply_series_Inr [OF ws] and RS = apply_series_Inr [OF rs]
  have lens: "length walls = length csv" "length roofs = length csv"
    "length wall_strs = length csv" "length roof_strs = length csv"
    using W R WS RS by simp_all
  have len: "length df = length csv" by (simp add: df lens)
  have row: "\<exists>w r.
        literal_eval (csv_wall_materials (csv ! i)) = Inr w \<and>
        literal_eval (csv_roof_materials (csv ! i)) = Inr r \<and>
        str_items w = Inr (wall_materials (df ! i)) \<and>
        str_items r = Inr (roof_materials (df ! i)) \<and>
        wall_materials_str (df ! i) = join '', '' (wall_materials (df ! i)) \<and>
        roof_materials_str (df ! i) = join '', '' (roof_materials (df ! i)) \<and>
        package (df ! i) = csv_package (csv ! i)" if i: "i < length csv" for i
  proof -
    have dfi: "df ! i = loaded_row (csv ! i) (walls ! i) (roofs ! i) (wall_strs ! i) (roof_strs ! i)"
      using i by (simp add: df lens)
    have a: "literal_eval (csv_wall_materials (csv ! i)) = Inr (walls ! i)"
      using W i by simp
    have b: "literal_eval (csv_roof_materials (csv ! i)) = Inr (roofs ! i)"
      using R i by simp
    have "comma_join (walls ! i) = Inr (wall_strs ! i)" using WS i lens by simp
    from comma_join_items [OF this]
    have c: "str_items (walls ! i) = Inr (items_of (walls ! i))"
      "wall_strs ! i = join '', '' (items_of (walls ! i))" by simp_all
    have "comma_join (roofs ! i) = Inr (roof_strs ! i)" using RS i lens by simp
    from comma_join_items [OF this]
    have d: "str_items (roofs ! i) = Inr (items_of (roofs ! i))"
      "roof_strs ! i = join '', '' (items_of (roofs ! i))" by simp_all
    show ?thesis using a b c d by (simp add: dfi loaded_row_def)
  qed
  from len row show ?thesis by blast
qed

lemma literal_eval_errors:
  "literal_eval s = Inl e \<Longrightarrow> e = Malformed_literal \<or> e = Outside_fragment"
  unfolding literal_eval_def by (rule scan_errors)

lemma load_data_malformed:
  assumes inside: "\<forall>row\<in>set csv.
      literal_eval (csv_wall_materials row) \<noteq> Inl Outside_fragment \<and>
      literal_eval (csv_roof_materials row) \<noteq> Inl Outside_fragment"
    and bad: "row \<in> set csv"
      "isl (literal_eval (csv_wall_materials row)) \<or> isl (literal_eval (csv_roof_materials row))"
  shows "load_data csv = Inl Malformed_literal"
proof (cases "apply_series literal_eval (map csv_wall_materials csv)")
  case (Inl e)
  from apply_series_Inl [OF Inl] obtain row' where
    row': "row' \<in> set csv" "literal_eval (csv_wall_materials row') = Inl e" by auto
  with inside literal_eval_errors [OF row'(2)] have "e = Malformed_literal" by auto
  with Inl show ?thesis by (simp add: load_data_def)
next
  case (Inr walls)
  note w = this
  show ?thesis
  proof (cases "apply_series literal_eval (map csv_roof_materials csv)")
    case (Inl e)
    from apply_series_Inl [OF Inl] obtain row' where
      row': "row' \<in> set csv" "literal_eval (csv_roof_materials row') = Inl e" by auto
    with inside literal_eval_errors [OF row'(2)] have "e = Malformed_literal" by auto
    with Inl w show ?thesis by (simp add: load_data_def)
  next
    case (Inr roofs)
    from bad(1) obtain i where i: "i < length csv" "csv ! i = row" by (meson in_set_conv_nth)
    from apply_series_Inr [OF w] i
    have "literal_eval (csv_wall_materials row) = Inr (walls ! i)" by auto
    moreover from apply_series_Inr [OF Inr] i
    have "literal_eval (csv_roof_materials row) = Inr (roofs ! i)" by auto
    ultimately show ?thesis using bad(2) by simp
  qed
qed

lemma load_data_raises:
  assumes bad: "row \<in> set csv"
      "isl (literal_eval (csv_wall_materials row)) \<or> isl (literal_eval (csv_roof_materials row))"
  shows "load_data csv = Inl Malformed_literal \<or> load_data csv = Inl Outside_fragment"
proof (cases "apply_series literal_eval (map csv_wall_materials csv)")
  case (Inl e)
  from apply_series_Inl [OF Inl] obtain row' where
    row': "row' \<in> set csv" "literal_eval (csv_wall_materials row') = Inl e" by auto
  from literal_eval_errors [OF row'(2)] Inl show ?thesis by (auto simp: load_data_def)
next
  case (Inr walls)
  note w = this
  show ?thesis
  proof (cases "apply_series literal_eval (map csv_roof_materials csv)")
    case (Inl e)
    from apply_series_Inl [OF Inl] obtain row' where
      row': "row' \<in> set csv" "literal_eval (csv_roof_materials row') = Inl e" by auto
    from literal_eval_errors [OF row'(2)] Inl w show ?thesis by (auto simp: load_data_def)
  next
    case (Inr roofs)
    from bad(1) obtain i where i: "i < length csv" "csv ! i = row" by (meson in_set_conv_nth)
    from apply_series_Inr [OF w] i
    have "literal_eval (csv_wall_materials row) = Inr (walls ! i)" by auto
    moreover from apply_series_Inr [OF Inr] i
    have "literal_eval (csv_roof_materials row) = Inr (roofs ! i)" by auto
    ultimately show ?thesis using bad(2) by simp
  qed
qed

lemma literal_eval_repr_str: "literal_eval (repr_str s) = Inr (PStr s)"
  using scan_repr_str [of "[]" s "[]"] by (simp add: literal_eval_def)

lemma string_cell_loads:
  "load_data [csv_example (repr_str s) (repr_list ys)] =
     Inr [\<lparr>package = ''P1'', wall_materials = map (\<lambda>c. [c]) s, roof_materials = ys,
           wall_materials_str = join '', '' (map (\<lambda>c. [c]) s),
           roof_materials_str = join '', '' ys,
           heating_demand_kwh_per_m2 = 50, gwp_kgco2e = 10, cost_sek = 100\<rparr>]"
  by (simp add: load_data_def csv_example_def literal_eval_repr_str literal_eval_repr_list
      comma_join_def loaded_row_def items_of_def list_all_iff comp_def)

lemma repr_str_ab: "repr_str ''ab'' = [CHR 0x27, CHR ''a'', CHR ''b'', CHR 0x27]"
  by (simp add: repr_str_def repr_quote_def repr_char_def printable_def Let_def)

lemma repr_list_x: "repr_list [''x''] = ''['x']''"
  by (simp add: repr_list_def repr_str_def repr_quote_def repr_char_def printable_def Let_def)

lemma double_comma_malformed: "literal_eval ''['brick',, 'woolY']'' = Inl Malformed_literal"
  by (simp add: literal_eval_def is_blank_def is_quote_def)

text \<open>
  Claim C4, as the code has it. When \<^verbatim>\<open>ast.literal_eval\<close> raises on a cell of either
  column, \<^verbatim>\<open>load_data\<close> returns no frame: it ends with an exception of the decoder
  (first conjunct; the other outcome of the model, \<open>Outside_fragment\<close>, arises only when
  an earlier cell left the modelled fragment). When every cell is within the fragment and
  some cell does not decode, the load ends with the exception that stands for Python's
  \<^verbatim>\<open>SyntaxError\<close> or \<^verbatim>\<open>ValueError\<close>. A frame is returned only when every cell of both
  columns was decoded, and it then has one row per row of the file, each with the
  sequences its two cells stand for. A cell is not required to be a list: a quoted
  string is decoded and loaded as the sequence of its characters.
\<close>

theorem load_data_raises_on_malformed_cell:
  "((\<exists>row\<in>set csv. literal_eval (csv_wall_materials row) = Inl Malformed_literal \<or>
                    literal_eval (csv_roof_materials row) = Inl Malformed_literal) \<longrightarrow>
      load_data csv = Inl Malformed_literal \<or> load_data csv = Inl Outside_fragment) \<and>
   ((\<forall>row\<in>set csv. literal_eval (csv_wall_materials row) \<noteq> Inl Outside_fragment \<and>
                    literal_eval (csv_roof_materials row) \<noteq> Inl Outside_fragment) \<and>
    (\<exists>row\<in>set csv. isl (literal_eval (csv_wall_materials row)) \<or>
                    isl (literal_eval (csv_roof_materials row))) \<longrightarrow>
      load_data csv = Inl Malformed_literal) \<and>
   (load_data csv = Inr df \<longrightarrow>
      length df = length csv \<and>
      (\<forall>i<length csv. \<exists>w r.
         literal_eval (csv_wall_materials (csv ! i)) = Inr w \<and>
         literal_eval (csv_roof_materials (csv ! i)) = Inr r \<and>
         str_items w = Inr (wall_materials (df ! i)) \<and>
         str_items r = Inr (roof_materials (df ! i)) \<and>
         wall_materials_str (df ! i) = join '', '' (wall_materials (df ! i)) \<and>
         roof_materials_str (df ! i) = join '', '' (roof_materials (df ! i)) \<and>
         package (df ! i) = csv_package (csv ! i))) \<and>
   load_data [csv_example (repr_str s) (repr_list ys)] =
     Inr [\<lparr>package = ''P1'', wall_materials = map (\<lambda>c. [c]) s, roof_materials = ys,
           wall_materials_str = join '', '' (map (\<lambda>c. [c]) s),
           roof_materials_str = join '', '' ys,
           heating_demand_kwh_per_m2 = 50, gwp_kgco2e = 10, cost_sek = 100\<rparr>]"
proof (intro conjI impI)
  assume "\<exists>row\<in>set csv. literal_eval (csv_wall_materials row) = Inl Malformed_literal \<or>
                         literal_eval (csv_roof_materials row) = Inl Malformed_literal"
  then obtain row where "row \<in> set csv"
    "isl (literal_eval (csv_wall_materials row)) \<or> isl (literal_eval (csv_roof_materials row))"
    by auto
  then show "load_data csv = Inl Malformed_literal \<or> load_data csv = Inl Outside_fragment"
    by (rule load_data_raises)
next
  assume a: "(\<forall>row\<in>set csv. literal_eval (csv_wall_materials row) \<noteq> Inl Outside_fragment \<and>
                    literal_eval (csv_roof_materials row) \<noteq> Inl Outside_fragment) \<and>
    (\<exists>row\<in>set csv. isl (literal_eval (csv_wall_materials row)) \<or>
                    isl (literal_eval (csv_roof_materials row)))"
  then obtain row where "row \<in> set csv"
    "isl (literal_eval (csv_wall_materials row)) \<or> isl (literal_eval (csv_roof_materials row))"
    by auto
  with a show "load_data csv = Inl Malformed_literal"
    by (intro load_data_malformed) simp_all
next
  assume "load_data csv = Inr df"
  from load_data_Inr [OF this]
  show "length df = length csv"
    and "\<forall>i<length csv. \<exists>w r.
         literal_eval (csv_wall_materials (csv ! i)) = Inr w \<and>
         literal_eval (csv_roof_materials (csv ! i)) = Inr r \<and>
         str_items w = Inr (wall_materials (df ! i)) \<and>
         str_items r = Inr (roof_materials (df ! i)) \<and>
         wall_materials_str (df ! i) = join '', '' (wall_materials (df ! i)) \<and>
         roof_materials_str (df ! i) = join '', '' (roof_materials (df ! i)) \<and>
         package (df ! i) = csv_package (csv ! i)"
    by simp_all
next
  show "load_data [csv_example (repr_str s) (repr_list ys)] =
     Inr [\<lparr>package = ''P1'', wall_materials = map (\<lambda>c. [c]) s, roof_materials = ys,
           wall_materials_str = join '', '' (map (\<lambda>c. [c]) s),
           roof_materials_str = join '', '' ys,
           heating_demand_kwh_per_m2 = 50, gwp_kgco2e = 10, cost_sek = 100\<rparr>]"
    by (rule string_cell_loads)
qed

text \<open>
  The claim as stated fails: the cell \<^verbatim>\<open>'ab'\<close> is a string literal, not a list literal,
  and the load succeeds, with the material sequence a, b.
\<close>

theorem string_cell_loads_counterexample:
  "load_data [csv_example [CHR 0x27, CHR ''a'', CHR ''b'', CHR 0x27] ''['x']''] =
     Inr [\<lparr>package = ''P1'', wall_materials = [''a'', ''b''], roof_materials = [''x''],
           wall_materials_str = ''a, b'', roof_materials_str = ''x'',
           heating_demand_kwh_per_m2 = 50, gwp_kgco2e = 10, cost_sek = 100\<rparr>]"
  using string_cell_loads [of "''ab''" "[''x'']"] by (simp add: repr_str_ab repr_list_x)

lemma good_then_malformed_rows:
  "literal_eval (csv_wall_materials (csv_example ''['x']'' ''['brick',, 'woolY']'')) = Inr (PList [PStr ''x''])"
  "literal_eval (csv_roof_materials (csv_example ''['x']'' ''['brick',, 'woolY']'')) = Inl Malformed_literal"
  "literal_eval (csv_wall_materials (csv_example ''['x']'' ''['x']'')) = Inr (PList [PStr ''x''])"
  "literal_eval (csv_roof_materials (csv_example ''['x']'' ''['x']'')) = Inr (PList [PStr ''x''])"
  by (simp_all add: csv_example_def literal_eval_def is_blank_def is_quote_def)

theorem load_data_raises_on_malformed_cell_witness:
  "literal_eval ''['brick',, 'woolY']'' = Inl Malformed_literal \<and>
   load_data [csv_example ''['x']'' ''['x']'', csv_example ''['x']'' ''['brick',, 'woolY']'']
     = Inl Malformed_literal \<and>
   load_data [csv_example ''['x']'' ''['x']''] =
     Inr [\<lparr>package = ''P1'', wall_materials = [''x''], roof_materials = [''x''],
           wall_materials_str = ''x'', roof_materials_str = ''x'',
           heating_demand_kwh_per_m2 = 50, gwp_kgco2e = 10, cost_sek = 100\<rparr>]"
proof -
  let ?good = "csv_example ''['x']'' ''['x']''"
  let ?bad = "csv_example ''['x']'' ''['brick',, 'woolY']''"
  have m: "literal_eval ''['brick',, 'woolY']'' = Inl Malformed_literal"
    by (rule double_comma_malformed)
  have "load_data [?good, ?bad] = Inl Malformed_literal"
    using load_data_raises_on_malformed_cell [of "[?good, ?bad]"]
    by (simp add: good_then_malformed_rows)
  moreover have "load_data [?good] =
     Inr [\<lparr>package = ''P1'', wall_materials = [''x''], roof_materials = [''x''],
           wall_materials_str = ''x'', roof_materials_str = ''x'',
           heating_demand_kwh_per_m2 = 50, gwp_kgco2e = 10, cost_sek = 100\<rparr>]"
    by (simp add: load_data_def csv_example_def literal_eval_def is_blank_def is_quote_def
        comma_join_def loaded_row_def items_of_def)
  ultimately show ?thesis
    using m load_data_raises_on_malformed_cell [of "[?good]"] by simp
qed

end
